theory Spec2Isabelle
  imports Complex_Main
begin

section \<open>The printer agent (src/index.js)\<close>

text \<open>
  The agent turns rows of a remote ledger of print jobs into receipts on a USB thermal
  printer. This theory embeds the job gate (\<open>isValidJobPayload\<close>, \<open>addToQueue\<close>), the
  bounded queue (\<open>PrintQueue\<close>), the connection manager (\<open>getPrinterConnection\<close>,
  \<open>cleanupPrinterConnection\<close>), the delivery routine (\<open>performPrint\<close>,
  \<open>printTicketSafe\<close>) and the realtime listener with its watchdog.

  JavaScript runs one task at a time and gives control away only at an \<open>await\<close>. Each
  function is therefore a state transformer on the agent's globals; what it does to the
  outside world (the device, the ledger, the realtime client, timers) is appended to a
  trace of events, and what the outside world answers is read from an environment.
\<close>

subsection \<open>Configuration constants\<close>

definition PRINTER_TIMEOUT :: nat where "PRINTER_TIMEOUT = 8000"
definition MAX_RETRIES :: nat where "MAX_RETRIES = 3"
definition QUEUE_MAX_LENGTH :: nat where "QUEUE_MAX_LENGTH = 300"
definition RETRY_BACKOFF_BASE :: nat where "RETRY_BACKOFF_BASE = 1000"
definition LISTENER_BACKOFF_BASE :: nat where "LISTENER_BACKOFF_BASE = 1000"

subsection \<open>Payloads: JSON values and the shape check\<close>

text \<open>
  A payload is the JSON value of the row's \<open>payload\<close> column, or \<open>undefined\<close> when the
  row has none. An object is the list of its own properties; the first binding of a key
  is the property's value.
\<close>

datatype jsval =
    JUndefined
  | JNull
  | JBool bool
  | JNum rat
  | JStr string
  | JArr "jsval list"
  | JObj "(string \<times> jsval) list"

text \<open>JavaScript's \<open>!v\<close> is \<open>\<not> truthy v\<close>.\<close>

fun truthy :: "jsval \<Rightarrow> bool" where
  "truthy JUndefined = False"
| "truthy JNull = False"
| "truthy (JBool b) = b"
| "truthy (JNum r) = (r \<noteq> 0)"
| "truthy (JStr s) = (s \<noteq> [])"
| "truthy (JArr xs) = True"
| "truthy (JObj kvs) = True"

fun typeof :: "jsval \<Rightarrow> string" where
  "typeof JUndefined = ''undefined''"
| "typeof JNull = ''object''"
| "typeof (JBool b) = ''boolean''"
| "typeof (JNum r) = ''number''"
| "typeof (JStr s) = ''string''"
| "typeof (JArr xs) = ''object''"
| "typeof (JObj kvs) = ''object''"

fun isArray :: "jsval \<Rightarrow> bool" where
  "isArray (JArr xs) = True"
| "isArray v = False"

text \<open>
  \<open>v.k\<close> for the keys the shape check reads (\<open>invoice\<close>, \<open>totals\<close>, \<open>total\<close>,
  \<open>items\<close>): an object gives its property, every other value gives \<open>undefined\<close>, since
  no array, string, number or boolean has a property of one of these names. The read
  throws on \<open>null\<close> and \<open>undefined\<close>; the shape check guards each read with a truthiness
  test, so it never reads from them.
\<close>

fun get_prop :: "jsval \<Rightarrow> string \<Rightarrow> jsval" where
  "get_prop (JObj kvs) k = (case map_of kvs k of Some v \<Rightarrow> v | None \<Rightarrow> JUndefined)"
| "get_prop v k = JUndefined"

definition isValidJobPayload :: "jsval \<Rightarrow> bool" where
  "isValidJobPayload p =
     (if \<not> truthy p \<or> typeof p \<noteq> ''object'' then False
      else if \<not> truthy (get_prop p ''invoice'') \<or> typeof (get_prop p ''invoice'') \<noteq> ''object'' then False
      else if \<not> truthy (get_prop p ''totals'') \<or> typeof (get_prop (get_prop p ''totals'') ''total'') \<noteq> ''number''
        then False
      else if \<not> isArray (get_prop p ''items'') then False
      else True)"

text \<open>
  What passes the check: an object whose \<open>invoice\<close> is an object or an array, whose
  \<open>totals\<close> is truthy with a number as \<open>total\<close>, and whose \<open>items\<close> is
  an array.
\<close>

lemma typeof_object: "(truthy v \<and> typeof v = ''object'') = ((\<exists>xs. v = JArr xs) \<or> (\<exists>kvs. v = JObj kvs))"
  by (cases v) auto

lemma typeof_number: "(typeof v = ''number'') = (\<exists>r. v = JNum r)"
  by (cases v) auto

lemma isArray_iff: "isArray v = (\<exists>xs. v = JArr xs)"
  by (cases v) auto

lemma isValidJobPayload_iff:
  "isValidJobPayload p =
     ((\<exists>kvs. p = JObj kvs) \<and>
      ((\<exists>xs. get_prop p ''invoice'' = JArr xs) \<or> (\<exists>kvs. get_prop p ''invoice'' = JObj kvs)) \<and>
      truthy (get_prop p ''totals'') \<and>
      (\<exists>r. get_prop (get_prop p ''totals'') ''total'' = JNum r) \<and>
      (\<exists>xs. get_prop p ''items'' = JArr xs))"
proof (cases "\<exists>kvs. p = JObj kvs")
  case True
  then have "truthy p \<and> typeof p = ''object''" by auto
  with True show ?thesis
    using typeof_object[of "get_prop p ''invoice''"]
    by (auto simp: isValidJobPayload_def typeof_number isArray_iff)
next
  case False
  then have "\<not> (truthy p \<and> typeof p = ''object'') \<or> get_prop p ''invoice'' = JUndefined"
    by (cases p) auto
  with False show ?thesis by (auto simp: isValidJobPayload_def)
qed

subsection \<open>The bounded queue\<close>

record 'i job =
  job_id :: 'i
  payload :: jsval

text \<open>
  \<open>scheduled\<close> counts the \<open>setImmediate(() => this.next())\<close> callbacks that have been
  registered and have not run yet.
\<close>

record 'i PrintQueue =
  concurrency :: nat
  maxLength :: nat
  queue :: "'i job list"
  running :: nat
  scheduled :: nat

definition new_PrintQueue :: "nat \<Rightarrow> nat \<Rightarrow> 'i PrintQueue" where
  "new_PrintQueue c m =
     \<lparr>concurrency = c, maxLength = m, queue = [], running = 0, scheduled = 0\<rparr>"

definition size_PrintQueue :: "'i PrintQueue \<Rightarrow> nat" where
  "size_PrintQueue q = length (queue q)"

definition push :: "'i job \<Rightarrow> 'i PrintQueue \<Rightarrow> bool \<times> 'i PrintQueue" where
  "push j q =
     (if length (queue q) \<ge> maxLength q then (False, q)
      else if list_ex (\<lambda>j'. job_id j' = job_id j) (queue q) then (False, q)
      else (True, q\<lparr>queue := queue q @ [j], scheduled := scheduled q + 1\<rparr>))"

text \<open>
  \<open>next()\<close> up to its \<open>await\<close>: it returns at once when the worker is busy or the buffer
  is empty, and otherwise takes the head of the buffer and counts it as running.
\<close>

definition next_begin :: "'i PrintQueue \<Rightarrow> 'i job option \<times> 'i PrintQueue" where
  "next_begin q =
     (if running q \<ge> concurrency q then (None, q)
      else case queue q of
        [] \<Rightarrow> (None, q)
      | j # js \<Rightarrow> (Some j, q\<lparr>queue := js, running := running q + 1\<rparr>))"

text \<open>The \<open>finally\<close> block of \<open>next()\<close>, run when the delivery has settled.\<close>

definition next_finish :: "'i PrintQueue \<Rightarrow> 'i PrintQueue" where
  "next_finish q = q\<lparr>running := running q - 1, scheduled := scheduled q + 1\<rparr>"

text \<open>
  The states a queue can be in, each with the ids of the jobs in flight: those that
  \<open>next()\<close> has taken from the buffer and whose delivery has not ended. The code keeps
  their number (\<open>running\<close>), not their ids. A queue is built by the constructor and
  then changed by \<open>push\<close>, by a registered callback running \<open>next()\<close>, and by a
  delivery ending.
\<close>

inductive reachable :: "'i PrintQueue \<Rightarrow> 'i list \<Rightarrow> bool" where
  New: "reachable (new_PrintQueue c m) []"
| Push: "reachable q fl \<Longrightarrow> reachable (snd (push j q)) fl"
| Pop: "reachable q fl \<Longrightarrow> scheduled q > 0 \<Longrightarrow>
    reachable (snd (next_begin (q\<lparr>scheduled := scheduled q - 1\<rparr>)))
      (case fst (next_begin (q\<lparr>scheduled := scheduled q - 1\<rparr>)) of
         None \<Rightarrow> fl
       | Some j \<Rightarrow> fl @ [job_id j])"
| Finish: "reachable q fl \<Longrightarrow> i \<in> set fl \<Longrightarrow> reachable (next_finish q) (remove1 i fl)"

lemma push_ids:
  "map job_id (queue (snd (push j q))) =
     (if fst (push j q) then map job_id (queue q) @ [job_id j] else map job_id (queue q))"
  by (simp add: push_def)

lemma push_accepts_fresh:
  "fst (push j q) \<Longrightarrow> job_id j \<notin> set (map job_id (queue q))"
  by (auto simp: push_def list_ex_iff split: if_splits)

lemma next_begin_ids:
  "\<exists>pre. map job_id (queue q) = pre @ map job_id (queue (snd (next_begin q)))"
  by (cases "queue q") (auto simp: next_begin_def intro: exI[of _ "[]"])

lemma reachable_distinct: "reachable q fl \<Longrightarrow> distinct (map job_id (queue q))"
proof (induction rule: reachable.induct)
  case (New c m)
  show ?case by (simp add: new_PrintQueue_def)
next
  case (Push q fl j)
  show ?case
  proof (cases "fst (push j q)")
    case True
    with Push.IH push_accepts_fresh[OF True] show ?thesis
      by (simp add: push_ids)
  next
    case False
    with Push.IH show ?thesis by (simp add: push_ids)
  qed
next
  case (Pop q fl)
  from next_begin_ids[of "q\<lparr>scheduled := scheduled q - 1\<rparr>"] obtain pre where
    "map job_id (queue q) =
       pre @ map job_id (queue (snd (next_begin (q\<lparr>scheduled := scheduled q - 1\<rparr>))))"
    by auto
  with Pop.IH show ?case
    by (metis distinct_append)
next
  case (Finish q fl i)
  then show ?case by (simp add: next_finish_def)
qed

text \<open>The counter \<open>running\<close> is the number of jobs in flight.\<close>

lemma reachable_running: "reachable q fl \<Longrightarrow> running q = length fl"
proof (induction rule: reachable.induct)
  case (New c m)
  show ?case by (simp add: new_PrintQueue_def)
next
  case (Push q fl j)
  then show ?case by (simp add: push_def)
next
  case (Pop q fl)
  then show ?case
    by (cases "queue q") (auto simp: next_begin_def)
next
  case (Finish q fl i)
  then show ?case by (simp add: next_finish_def length_remove1)
qed

subsection \<open>The agent's state, its effects and its environment\<close>

text \<open>
  A device object (\<open>new escpos.USB(VID, PID)\<close>) is named by the number of device
  objects made before it; the printer object wrapped around a device carries the
  device's number. A channel object of the realtime client is named the same way.
\<close>

type_synonym handle = nat
type_synonym chan = nat

datatype status = Pending | Printed | Error

datatype failure = InvalidPayload | OpenFailed | SubmitFailed | HardwareTimeout | TypeError

text \<open>
  A delay the agent computes is a JavaScript number, that is a double. The values that
  arise are powers of two and 1000 times a power of two: a double holds such a value
  exactly as long as it does not exceed the largest double, and the operation gives
  \<open>Infinity\<close> when it does.
\<close>

datatype double = Exact nat | Infinity

definition MAX_VALUE :: nat where
  "MAX_VALUE = (2 ^ 53 - 1) * 2 ^ 971"

definition double_of :: "nat \<Rightarrow> double" where
  "double_of v = (if v \<le> MAX_VALUE then Exact v else Infinity)"

text \<open>\<open>Math.pow(2, k)\<close> for a natural number \<open>k\<close>.\<close>

definition pow2 :: "nat \<Rightarrow> double" where
  "pow2 k = double_of (2 ^ k)"

text \<open>\<open>c * d\<close> for a positive integer \<open>c\<close>.\<close>

fun times_double :: "nat \<Rightarrow> double \<Rightarrow> double" where
  "times_double c (Exact v) = double_of (c * v)"
| "times_double c Infinity = Infinity"

text \<open>
  The delay that a timer of Node waits when \<open>setTimeout\<close> is given the delay \<open>d\<close>: a
  delay above \<open>2^31 - 1\<close> or below 1 is replaced by 1.
\<close>

definition TIMEOUT_MAX :: nat where
  "TIMEOUT_MAX = 2 ^ 31 - 1"

definition applied_delay :: "double \<Rightarrow> nat" where
  "applied_delay d =
     (case d of
        Exact v \<Rightarrow> if 1 \<le> v \<and> v \<le> TIMEOUT_MAX then v else 1
      | Infinity \<Rightarrow> 1)"

text \<open>What the agent does to the outside world, in the order it does it.\<close>

datatype 'i event =
    DeviceOpen handle  \<comment> \<open>\<open>device.open\<close> on a new device object: a physical open\<close>
  | Submit 'i handle  \<comment> \<open>the receipt of a job is written to a printer object\<close>
  | Wait nat  \<comment> \<open>\<open>await wait(ms)\<close>\<close>
  | Cleanup  \<comment> \<open>\<open>cleanupPrinterConnection\<close> closed and dropped the connection\<close>
  | LedgerUpdate 'i status  \<comment> \<open>\<open>update({status}).eq('id', id)\<close> on \<open>print_jobs\<close>\<close>
  | SelectPending  \<comment> \<open>the query for the rows whose status is \<open>pending\<close>\<close>
  | RemoveChannel chan  \<comment> \<open>\<open>supabase.removeChannel\<close>\<close>
  | Subscribe chan  \<comment> \<open>\<open>createChannel().subscribe(...)\<close> on a new channel object\<close>
  | Schedule double  \<comment> \<open>\<open>setTimeout(setupListener, backoff)\<close>\<close>

datatype outcome = Completed | Threw | Hung

text \<open>
  What the outside world answers: whether the open of a device object succeeds, how the
  n-th submission ends (the receipt is written and the task resolves, rendering or
  writing throws, or nothing comes back before \<open>PRINTER_TIMEOUT\<close>), and whether
  creating and subscribing a channel object throws.
\<close>

record env =
  open_ok :: "handle \<Rightarrow> bool"
  print_outcome :: "nat \<Rightarrow> outcome"
  subscribe_ok :: "chan \<Rightarrow> bool"

text \<open>
  The module's globals. \<open>chanState\<close> is the store of the channel objects' \<open>state\<close>
  fields, which the realtime client writes; \<open>channel\<close> is a reference into it.
  \<open>devices\<close>, \<open>submits\<close> and \<open>channels\<close> count the device objects made, the
  submissions started and the channel objects made.
\<close>

record 'i agent =
  persistentDevice :: "handle option"
  persistentPrinter :: "handle option"
  isDeviceInitializing :: bool
  printQueue :: "'i PrintQueue"
  channel :: "chan option"
  chanState :: "chan \<Rightarrow> string"
  listenerAttempt :: nat
  devices :: nat
  submits :: nat
  channels :: nat
  trace :: "'i event list"

definition emit :: "'i event \<Rightarrow> 'i agent \<Rightarrow> 'i agent" where
  "emit e s = s\<lparr>trace := trace s @ [e]\<rparr>"

text \<open>The agent as the module leaves it once loaded: \<open>const queue = new PrintQueue()\<close>.\<close>

definition initial :: "'i agent" where
  "initial =
     \<lparr>persistentDevice = None, persistentPrinter = None, isDeviceInitializing = False,
      printQueue = new_PrintQueue 1 QUEUE_MAX_LENGTH, channel = None,
      chanState = (\<lambda>c. ''closed''), listenerAttempt = 0, devices = 0, submits = 0,
      channels = 0, trace = []\<rparr>"

definition wait :: "nat \<Rightarrow> 'i agent \<Rightarrow> 'i agent" where
  "wait ms s = emit (Wait ms) s"

subsection \<open>The connection manager\<close>

definition cleanupPrinterConnection :: "'i agent \<Rightarrow> 'i agent" where
  "cleanupPrinterConnection s =
     emit Cleanup
       (s\<lparr>persistentDevice := None, persistentPrinter := None, isDeviceInitializing := False\<rparr>)"

text \<open>
  \<open>getPrinterConnection\<close> is asynchronous: it runs until it returns, throws or reaches
  an \<open>await\<close>, and is resumed when the timer of \<open>wait(200)\<close> fires or when the device's
  open has called back. \<open>caller\<close> is where one call of it stands.
\<close>

datatype caller =
    Waiting nat  \<comment> \<open>suspended in \<open>await wait(200)\<close>, with the value of \<open>waited\<close>\<close>
  | Opening handle  \<comment> \<open>suspended in \<open>await promisifiedDeviceOpen(device)\<close>\<close>
  | Returned handle handle  \<comment> \<open>returned \<open>{device, printer}\<close>\<close>
  | Thrown failure

definition ready :: "'i agent \<Rightarrow> bool" where
  "ready s = (persistentDevice s \<noteq> None \<and> persistentPrinter s \<noteq> None)"

text \<open>Lines 138 to 142: mark the open as in progress, make the device object, open it.\<close>

definition gpc_open :: "'i agent \<Rightarrow> caller \<times> 'i agent" where
  "gpc_open s =
     (let h = devices s
      in (Opening h, emit (DeviceOpen h) (s\<lparr>isDeviceInitializing := True, devices := h + 1\<rparr>)))"

text \<open>Lines 133 to 136, after the loop: return the connection if it is there, else open.\<close>

definition gpc_after_wait :: "'i agent \<Rightarrow> caller \<times> 'i agent" where
  "gpc_after_wait s =
     (if ready s then (Returned (the (persistentDevice s)) (the (persistentPrinter s)), s)
      else gpc_open s)"

text \<open>The head of the loop at line 129, with the current value of \<open>waited\<close>.\<close>

definition gpc_loop :: "nat \<Rightarrow> 'i agent \<Rightarrow> caller \<times> 'i agent" where
  "gpc_loop waited s =
     (if isDeviceInitializing s \<and> waited < 5000 then (Waiting waited, wait 200 s)
      else gpc_after_wait s)"

text \<open>The call itself, up to its first \<open>await\<close>.\<close>

definition gpc_call :: "'i agent \<Rightarrow> caller \<times> 'i agent" where
  "gpc_call s =
     (if ready s then (Returned (the (persistentDevice s)) (the (persistentPrinter s)), s)
      else if isDeviceInitializing s then gpc_loop 0 s
      else gpc_open s)"

text \<open>The timer of \<open>wait(200)\<close> has fired: \<open>waited += 200\<close>, then the loop's head again.\<close>

definition gpc_timer :: "nat \<Rightarrow> 'i agent \<Rightarrow> caller \<times> 'i agent" where
  "gpc_timer waited s = gpc_loop (waited + 200) s"

text \<open>
  The open of device \<open>h\<close> has called back, with success (lines 144 to 152) or with an
  error (the \<open>catch\<close> at lines 153 to 157).
\<close>

definition gpc_opened :: "bool \<Rightarrow> handle \<Rightarrow> 'i agent \<Rightarrow> caller \<times> 'i agent" where
  "gpc_opened ok h s =
     (if ok
      then (Returned h h,
            s\<lparr>persistentDevice := Some h, persistentPrinter := Some h,
              isDeviceInitializing := False\<rparr>)
      else (Thrown OpenFailed, cleanupPrinterConnection (s\<lparr>isDeviceInitializing := False\<rparr>)))"

text \<open>
  One call run to its end with nothing else running in between: every timer fires and
  the open calls back with the environment's answer.
\<close>

function gpc_drive :: "env \<Rightarrow> caller \<times> 'i agent \<Rightarrow> (failure + handle \<times> handle) \<times> 'i agent" where
  "gpc_drive env (Waiting waited, s) = gpc_drive env (gpc_timer waited s)"
| "gpc_drive env (Opening h, s) = gpc_drive env (gpc_opened (open_ok env h) h s)"
| "gpc_drive env (Returned d p, s) = (Inr (d, p), s)"
| "gpc_drive env (Thrown e, s) = (Inl e, s)"
  by pat_completeness auto
termination
proof (relation "measure (\<lambda>(env, c, s). case c of Waiting w \<Rightarrow> (5000 - w) + 2 | Opening h \<Rightarrow> 1 | _ \<Rightarrow> 0)")
  show "wf (measure (\<lambda>(env :: env, c, s :: 'i agent). case c of Waiting w \<Rightarrow> (5000 - w) + 2 | Opening h \<Rightarrow> 1 | _ \<Rightarrow> 0))"
    by simp
next
  fix env :: env and waited and s :: "'i agent"
  show "((env, gpc_timer waited s), env, Waiting waited, s)
      \<in> measure (\<lambda>(env, c, s). case c of Waiting w \<Rightarrow> (5000 - w) + 2 | Opening h \<Rightarrow> 1 | _ \<Rightarrow> 0)"
    by (auto simp: gpc_timer_def gpc_loop_def gpc_after_wait_def gpc_open_def Let_def)
next
  fix env :: env and h and s :: "'i agent"
  show "((env, gpc_opened (open_ok env h) h s), env, Opening h, s)
      \<in> measure (\<lambda>(env, c, s). case c of Waiting w \<Rightarrow> (5000 - w) + 2 | Opening h \<Rightarrow> 1 | _ \<Rightarrow> 0)"
    by (auto simp: gpc_opened_def)
qed

definition getPrinterConnection :: "env \<Rightarrow> 'i agent \<Rightarrow> (failure + handle \<times> handle) \<times> 'i agent" where
  "getPrinterConnection env s = gpc_drive env (gpc_call s)"

text \<open>
  Several calls of \<open>getPrinterConnection\<close> can be under way at once, each suspended at
  an \<open>await\<close>: \<open>performPrint\<close> calls it, and so does the handler of the USB attach
  event. The tasks are numbered; the event loop resumes one of them at a time. \<open>Call\<close>
  starts a call, \<open>Timer\<close> resumes a call suspended in \<open>wait(200)\<close>, \<open>OpenDone\<close>
  resumes a call suspended in the open of its device, with the open's success, and
  \<open>Detach\<close> is the handler of the USB detach event.
\<close>

datatype gpc_event = Call nat | Timer nat | OpenDone nat bool | Detach

fun gpc_step ::
  "gpc_event \<Rightarrow> (nat \<Rightarrow> caller option) \<times> 'i agent \<Rightarrow> (nat \<Rightarrow> caller option) \<times> 'i agent" where
  "gpc_step (Call p) (cs, s) = (cs(p \<mapsto> fst (gpc_call s)), snd (gpc_call s))"
| "gpc_step (Timer p) (cs, s) =
     (case cs p of
        Some (Waiting w) \<Rightarrow> (cs(p \<mapsto> fst (gpc_timer w s)), snd (gpc_timer w s))
      | _ \<Rightarrow> (cs, s))"
| "gpc_step (OpenDone p ok) (cs, s) =
     (case cs p of
        Some (Opening h) \<Rightarrow> (cs(p \<mapsto> fst (gpc_opened ok h s)), snd (gpc_opened ok h s))
      | _ \<Rightarrow> (cs, s))"
| "gpc_step Detach (cs, s) = (cs, cleanupPrinterConnection s)"

subsection \<open>Delivering one job\<close>

text \<open>
  The \<open>try\<close> block of \<open>performPrint\<close>: get the connection, write the receipt to its
  printer object and race that against the hardware timeout.
\<close>

definition performPrint_try :: "env \<Rightarrow> 'i \<Rightarrow> 'i agent \<Rightarrow> (failure + unit) \<times> 'i agent" where
  "performPrint_try env jobId s =
     (case getPrinterConnection env s of
        (Inl e, s1) \<Rightarrow> (Inl e, s1)
      | (Inr (d, p), s1) \<Rightarrow>
          (let n = submits s1;
               s2 = emit (Submit jobId p) (s1\<lparr>submits := n + 1\<rparr>)
           in case print_outcome env n of
                Completed \<Rightarrow> (Inr (), s2)
              | Threw \<Rightarrow> (Inl SubmitFailed, s2)
              | Hung \<Rightarrow> (Inl HardwareTimeout, s2)))"

function performPrint ::
  "env \<Rightarrow> 'i \<Rightarrow> jsval \<Rightarrow> nat \<Rightarrow> 'i agent \<Rightarrow> (failure + unit) \<times> 'i agent" where
  "performPrint env jobId data retryCount s =
     (if \<not> isValidJobPayload data then (Inl InvalidPayload, s)
      else case performPrint_try env jobId s of
          (Inr u, s1) \<Rightarrow> (Inr (), s1)
        | (Inl err, s1) \<Rightarrow>
            (let s2 = cleanupPrinterConnection s1
             in if retryCount < MAX_RETRIES
                then performPrint env jobId data (retryCount + 1)
                       (wait (RETRY_BACKOFF_BASE * 2 ^ retryCount) s2)
                else (Inl err, s2)))"
  by pat_completeness auto
termination
  by (relation "measure (\<lambda>(env, jobId, data, retryCount, s). MAX_RETRIES + 1 - retryCount)") auto

declare performPrint.simps [simp del]

text \<open>
  \<open>supabase.from('print_jobs').update({status}).eq('id', id)\<close> builds a query. The
  query is sent when it is awaited, and the client reports a request that failed in its
  answer and does not throw: the \<open>catch\<close> of \<open>printTicketSafe\<close> is entered only when
  \<open>performPrint\<close> has thrown.
\<close>

definition printTicketSafe :: "env \<Rightarrow> 'i \<Rightarrow> jsval \<Rightarrow> 'i agent \<Rightarrow> 'i agent" where
  "printTicketSafe env jobId pl s =
     (case performPrint env jobId pl 0 s of
        (Inr u, s1) \<Rightarrow> emit (LedgerUpdate jobId Printed) s1
      | (Inl err, s1) \<Rightarrow> emit (LedgerUpdate jobId Error) s1)"

subsection \<open>The queue's worker and the job gate\<close>

text \<open>
  One run of \<open>next()\<close> from its call to the end of its \<open>finally\<close> block, with nothing
  else running while it awaits the delivery.
\<close>

definition PrintQueue_next :: "env \<Rightarrow> 'i agent \<Rightarrow> 'i agent" where
  "PrintQueue_next env s =
     (case next_begin (printQueue s) of
        (None, q) \<Rightarrow> s
      | (Some j, q) \<Rightarrow>
          (let s1 = printTicketSafe env (job_id j) (payload j) (s\<lparr>printQueue := q\<rparr>)
           in s1\<lparr>printQueue := next_finish (printQueue s1)\<rparr>))"

text \<open>The \<open>finally\<close> block of \<open>next()\<close>, on the agent.\<close>

definition end_delivery :: "'i agent \<Rightarrow> 'i agent" where
  "end_delivery s = s\<lparr>printQueue := next_finish (printQueue s)\<rparr>"

text \<open>
  On its two failure paths \<open>addToQueue\<close> builds the query that would set the row's
  status to \<open>error\<close>, does not await it, and calls \<open>.catch(() => {})\<close> on it. The
  query object has a \<open>then\<close> and no \<open>catch\<close>: the call throws a \<open>TypeError\<close>, and the
  query, which nothing has awaited, is never sent.
\<close>

definition addToQueue :: "'i \<Rightarrow> jsval \<Rightarrow> 'i agent \<Rightarrow> (failure + unit) \<times> 'i agent" where
  "addToQueue i pl s =
     (if \<not> isValidJobPayload pl then (Inl TypeError, s)
      else let (pushed, q) = push \<lparr>job_id = i, payload = pl\<rparr> (printQueue s)
           in if pushed then (Inr (), s\<lparr>printQueue := q\<rparr>)
              else (Inl TypeError, s))"

subsection \<open>The realtime listener and the watchdog\<close>

text \<open>
  The ledger's answer to the query of \<open>processPending\<close> (the rows whose status is
  \<open>pending\<close>, oldest first, at most 100): an error, or the rows' ids and payloads.
\<close>

type_synonym 'i answer = "string + ('i \<times> jsval) list"

text \<open>
  \<open>data.forEach(job => addToQueue(job.id, job.payload))\<close>: an exception leaves the
  loop, and the rows after it are not handed to \<open>addToQueue\<close>.
\<close>

fun forEach_addToQueue :: "('i \<times> jsval) list \<Rightarrow> 'i agent \<Rightarrow> (failure + unit) \<times> 'i agent" where
  "forEach_addToQueue [] s = (Inr (), s)"
| "forEach_addToQueue ((i, pl) # rows) s =
     (case addToQueue i pl s of
        (Inl e, s1) \<Rightarrow> (Inl e, s1)
      | (Inr u, s1) \<Rightarrow> forEach_addToQueue rows s1)"

text \<open>
  \<open>processPending\<close> catches what its \<open>try\<close> block throws, the error of the query and
  an exception out of the loop alike, and logs it.
\<close>

definition processPending :: "'i answer \<Rightarrow> 'i agent \<Rightarrow> 'i agent" where
  "processPending answer s =
     (let s1 = emit SelectPending s
      in case answer of
           Inl err \<Rightarrow> s1
         | Inr rows \<Rightarrow> snd (forEach_addToQueue rows s1))"

text \<open>
  The delay handed to \<open>setTimeout\<close> when \<open>listenerAttempt\<close> has just become \<open>n\<close>:
  \<open>LISTENER_BACKOFF_BASE * Math.pow(2, Math.max(0, n - 1))\<close>.
\<close>

definition listener_backoff :: "nat \<Rightarrow> double" where
  "listener_backoff n = times_double LISTENER_BACKOFF_BASE (pow2 (nat (max 0 (int n - 1))))"

text \<open>
  \<open>setupListener\<close>, its awaits run to their end. A channel object that has just been
  subscribed is in state \<open>joining\<close>, which is what the realtime client sets.
\<close>

definition setupListener :: "env \<Rightarrow> 'i agent \<Rightarrow> 'i agent" where
  "setupListener env s =
     (if (case channel s of
            Some c \<Rightarrow> chanState s c = ''joined'' \<or> chanState s c = ''joining''
          | None \<Rightarrow> False)
      then s
      else
        let s1 = (case channel s of
                    Some old \<Rightarrow> emit (RemoveChannel old) (s\<lparr>channel := None\<rparr>)
                  | None \<Rightarrow> s);
            c = channels s1;
            s2 = emit (Subscribe c) (s1\<lparr>channels := c + 1\<rparr>)
        in if subscribe_ok env c
           then s2\<lparr>channel := Some c, chanState := (chanState s2)(c := ''joining'')\<rparr>
           else let n = listenerAttempt s2 + 1
                in emit (Schedule (listener_backoff n)) (s2\<lparr>listenerAttempt := n\<rparr>))"

text \<open>The callback given to \<open>subscribe\<close>, for the channel object \<open>newChannel\<close>.\<close>

definition on_status :: "chan \<Rightarrow> string \<Rightarrow> 'i answer \<Rightarrow> 'i agent \<Rightarrow> 'i agent" where
  "on_status newChannel st answer s =
     (if st = ''SUBSCRIBED''
      then processPending answer (s\<lparr>listenerAttempt := 0, channel := Some newChannel\<rparr>)
      else if st \<in> set [''CLOSED'', ''CHANNEL_ERROR'', ''TIMED_OUT'']
      then
        (let s1 = emit (RemoveChannel newChannel) s;
             s2 = (if channel s1 = Some newChannel then s1\<lparr>channel := None\<rparr> else s1);
             n = listenerAttempt s2 + 1
         in emit (Schedule (listener_backoff n)) (s2\<lparr>listenerAttempt := n\<rparr>))
      else s)"

text \<open>\<open>toUpperCase\<close> on a string of ASCII characters.\<close>

definition toUpperCase :: "string \<Rightarrow> string" where
  "toUpperCase =
     map (\<lambda>c. case map_of (zip ''abcdefghijklmnopqrstuvwxyz'' ''ABCDEFGHIJKLMNOPQRSTUVWXYZ'') c of
                 Some u \<Rightarrow> u
               | None \<Rightarrow> c)"

text \<open>The test of the watchdog at line 505.\<close>

definition shouldRestart :: "'i agent \<Rightarrow> bool" where
  "shouldRestart s =
     (case channel s of
        None \<Rightarrow> True
      | Some c \<Rightarrow> toUpperCase (chanState s c) \<in> set [''CLOSED'', ''ERRORED'', ''CHANNEL_ERROR''])"

text \<open>One tick of the watchdog's \<open>setInterval\<close> callback.\<close>

definition watchdog :: "env \<Rightarrow> 'i answer \<Rightarrow> 'i agent \<Rightarrow> 'i agent" where
  "watchdog env answer s =
     (let s1 = (if shouldRestart s then setupListener env s else s)
      in processPending answer s1)"

subsection \<open>What a delivery leaves alone\<close>

text \<open>
  The updates of the ledger that a trace holds, in order. A delivery touches the
  connection and the device; it neither changes the queue nor writes to the ledger
  before \<open>printTicketSafe\<close> records its outcome.
\<close>

fun ledger_writes :: "'i event list \<Rightarrow> ('i \<times> status) list" where
  "ledger_writes [] = []"
| "ledger_writes (LedgerUpdate i st # es) = (i, st) # ledger_writes es"
| "ledger_writes (e # es) = ledger_writes es"

definition same_queue_and_ledger :: "'i agent \<Rightarrow> 'i agent \<Rightarrow> bool" where
  "same_queue_and_ledger s s' =
     (printQueue s' = printQueue s \<and> ledger_writes (trace s') = ledger_writes (trace s))"

lemma ledger_writes_append:
  "ledger_writes (es @ fs) = ledger_writes es @ ledger_writes fs"
  by (induction es rule: ledger_writes.induct) auto

lemma frame_refl: "same_queue_and_ledger s s"
  by (simp add: same_queue_and_ledger_def)

lemma frame_trans:
  "same_queue_and_ledger s s' \<Longrightarrow> same_queue_and_ledger s' s'' \<Longrightarrow> same_queue_and_ledger s s''"
  by (simp add: same_queue_and_ledger_def)

lemma frame_wait: "same_queue_and_ledger s (wait ms s)"
  by (simp add: same_queue_and_ledger_def wait_def emit_def ledger_writes_append)

lemma frame_cleanup: "same_queue_and_ledger s (cleanupPrinterConnection s)"
  by (simp add: same_queue_and_ledger_def cleanupPrinterConnection_def emit_def ledger_writes_append)

lemma frame_gpc_open: "same_queue_and_ledger s (snd (gpc_open s))"
  by (simp add: same_queue_and_ledger_def gpc_open_def emit_def ledger_writes_append Let_def)

lemma frame_gpc_after_wait: "same_queue_and_ledger s (snd (gpc_after_wait s))"
  by (simp add: gpc_after_wait_def frame_refl frame_gpc_open)

lemma frame_gpc_loop: "same_queue_and_ledger s (snd (gpc_loop w s))"
  by (simp add: gpc_loop_def frame_wait frame_gpc_after_wait)

lemma frame_gpc_call: "same_queue_and_ledger s (snd (gpc_call s))"
  by (simp add: gpc_call_def frame_refl frame_gpc_loop frame_gpc_open)

lemma frame_gpc_timer: "same_queue_and_ledger s (snd (gpc_timer w s))"
  by (simp add: gpc_timer_def frame_gpc_loop)

lemma frame_gpc_opened: "same_queue_and_ledger s (snd (gpc_opened ok h s))"
  by (simp add: gpc_opened_def same_queue_and_ledger_def cleanupPrinterConnection_def emit_def
      ledger_writes_append)

lemma frame_gpc_drive: "same_queue_and_ledger (snd cs) (snd (gpc_drive env cs))"
proof (induction env cs rule: gpc_drive.induct)
  case (1 env waited s)
  have "same_queue_and_ledger s (snd (gpc_timer waited s))" by (rule frame_gpc_timer)
  with 1 show ?case by (auto intro: frame_trans)
next
  case (2 env h s)
  have "same_queue_and_ledger s (snd (gpc_opened (open_ok env h) h s))" by (rule frame_gpc_opened)
  with 2 show ?case by (auto intro: frame_trans)
qed (simp_all add: frame_refl)

lemma frame_getPrinterConnection:
  "same_queue_and_ledger s (snd (getPrinterConnection env s))"
  unfolding getPrinterConnection_def
  using frame_trans[OF frame_gpc_call frame_gpc_drive] by blast

lemma frame_performPrint_try:
  "same_queue_and_ledger s (snd (performPrint_try env i s))"
proof -
  obtain r s1 where g: "getPrinterConnection env s = (r, s1)" by (cases "getPrinterConnection env s")
  with frame_getPrinterConnection[of s env] have f: "same_queue_and_ledger s s1" by simp
  show ?thesis
  proof (cases r)
    case (Inl e)
    with g f show ?thesis by (simp add: performPrint_try_def)
  next
    case (Inr dp)
    obtain d p where "dp = (d, p)" by (cases dp)
    with Inr g f show ?thesis
      by (cases "print_outcome env (submits s1)")
         (simp_all add: performPrint_try_def Let_def same_queue_and_ledger_def emit_def
            ledger_writes_append)
  qed
qed

lemma frame_performPrint:
  "same_queue_and_ledger s (snd (performPrint env i pl r s))"
proof (induction env i pl r s rule: performPrint.induct)
  case (1 env jobId data retryCount s)
  show ?case
  proof (cases "isValidJobPayload data")
    case False
    then show ?thesis by (simp add: performPrint.simps frame_refl)
  next
    case True
    obtain res s1 where t: "performPrint_try env jobId s = (res, s1)"
      by (cases "performPrint_try env jobId s")
    with frame_performPrint_try[of s env jobId] have f1: "same_queue_and_ledger s s1" by simp
    show ?thesis
    proof (cases res)
      case (Inr u)
      with True t f1 show ?thesis by (simp add: performPrint.simps)
    next
      case (Inl err)
      let ?s2 = "cleanupPrinterConnection s1"
      have f2: "same_queue_and_ledger s ?s2" using f1 frame_cleanup frame_trans by blast
      show ?thesis
      proof (cases "retryCount < MAX_RETRIES")
        case False
        with True t Inl f2 show ?thesis by (simp add: performPrint.simps)
      next
        case lt: True
        let ?s3 = "wait (RETRY_BACKOFF_BASE * 2 ^ retryCount) ?s2"
        have f3: "same_queue_and_ledger s ?s3" using f2 frame_wait frame_trans by blast
        have "same_queue_and_ledger ?s3 (snd (performPrint env jobId data (retryCount + 1) ?s3))"
          using "1.IH"[OF _ t[symmetric] _ refl lt] True Inl by simp
        with f3 have "same_queue_and_ledger s (snd (performPrint env jobId data (retryCount + 1) ?s3))"
          using frame_trans by blast
        with True t Inl lt show ?thesis by (simp add: performPrint.simps[of env jobId data retryCount s])
      qed
    qed
  qed
qed

lemma printTicketSafe_queue: "printQueue (printTicketSafe env i pl s) = printQueue s"
proof -
  obtain r s1 where p: "performPrint env i pl 0 s = (r, s1)" by (cases "performPrint env i pl 0 s")
  with frame_performPrint[of s env i pl 0] have "printQueue s1 = printQueue s"
    by (simp add: same_queue_and_ledger_def)
  with p show ?thesis by (cases r) (simp_all add: printTicketSafe_def emit_def)
qed

lemma printTicketSafe_ledger:
  "ledger_writes (trace (printTicketSafe env i pl s)) =
     ledger_writes (trace s) @
       [(i, if fst (performPrint env i pl 0 s) = Inr () then Printed else Error)]"
proof -
  obtain r s1 where p: "performPrint env i pl 0 s = (r, s1)" by (cases "performPrint env i pl 0 s")
  with frame_performPrint[of s env i pl 0] have "ledger_writes (trace s1) = ledger_writes (trace s)"
    by (simp add: same_queue_and_ledger_def)
  with p show ?thesis
    by (cases r) (simp_all add: printTicketSafe_def emit_def ledger_writes_append)
qed

lemma PrintQueue_next_idle:
  "fst (next_begin (printQueue s)) = None \<Longrightarrow> PrintQueue_next env s = s"
  by (cases "next_begin (printQueue s)") (simp add: PrintQueue_next_def)

lemma PrintQueue_next_queue:
  "next_begin (printQueue s) = (Some j, q) \<Longrightarrow> printQueue (PrintQueue_next env s) = next_finish q"
  by (simp add: PrintQueue_next_def Let_def printTicketSafe_queue)

lemma PrintQueue_next_ledger:
  "next_begin (printQueue s) = (Some j, q) \<Longrightarrow>
   ledger_writes (trace (PrintQueue_next env s)) =
     ledger_writes (trace s) @
       [(job_id j,
         if fst (performPrint env (job_id j) (payload j) 0 (s\<lparr>printQueue := q\<rparr>)) = Inr ()
         then Printed else Error)]"
  by (simp add: PrintQueue_next_def Let_def printTicketSafe_ledger)

text \<open>
  The event loop takes one registered \<open>setImmediate\<close> callback and runs it.
  \<open>run_immediates\<close> does so until none is left: the worker as it runs when nothing
  else is pushed meanwhile.
\<close>

definition take_immediate :: "'i agent \<Rightarrow> 'i agent" where
  "take_immediate s = s\<lparr>printQueue := (printQueue s)\<lparr>scheduled := scheduled (printQueue s) - 1\<rparr>\<rparr>"

lemma next_immediate_measure:
  assumes "scheduled (printQueue s) \<noteq> 0"
  shows "length (queue (printQueue (PrintQueue_next env (take_immediate s)))) +
           scheduled (printQueue (PrintQueue_next env (take_immediate s)))
         < length (queue (printQueue s)) + scheduled (printQueue s)"
proof (cases "next_begin (printQueue (take_immediate s))")
  case (Pair oj q)
  show ?thesis
  proof (cases oj)
    case None
    with Pair have "PrintQueue_next env (take_immediate s) = take_immediate s"
      by (simp add: PrintQueue_next_idle)
    with assms show ?thesis by (simp add: take_immediate_def)
  next
    case (Some j)
    with Pair have q: "printQueue (PrintQueue_next env (take_immediate s)) = next_finish q"
      by (simp add: PrintQueue_next_queue)
    from Pair Some have "queue (printQueue s) = j # queue q \<and> scheduled q = scheduled (printQueue s) - 1"
      by (auto simp: next_begin_def take_immediate_def split: if_splits list.splits)
    with q assms show ?thesis by (simp add: next_finish_def)
  qed
qed

function run_immediates :: "env \<Rightarrow> 'i agent \<Rightarrow> 'i agent" where
  "run_immediates env s =
     (if scheduled (printQueue s) = 0 then s
      else run_immediates env (PrintQueue_next env (take_immediate s)))"
  by pat_completeness auto
termination
  by (relation "measure (\<lambda>(env, s). length (queue (printQueue s)) + scheduled (printQueue s))")
     (simp_all add: next_immediate_measure)

declare run_immediates.simps [simp del]

section \<open>Sample inputs\<close>

text \<open>
  A payload that passes the shape check, and three environments: one whose device never
  opens, one whose device opens and whose every submission throws, and one where
  everything works.
\<close>

definition receipt :: jsval where
  "receipt =
     JObj [(''invoice'', JObj [(''number'', JStr ''F-1'')]),
           (''totals'', JObj [(''total'', JNum 1500)]),
           (''items'', JArr [])]"

definition env_open_fails :: env where
  "env_open_fails =
     \<lparr>open_ok = (\<lambda>h. False), print_outcome = (\<lambda>n. Completed), subscribe_ok = (\<lambda>c. True)\<rparr>"

definition env_submit_fails :: env where
  "env_submit_fails =
     \<lparr>open_ok = (\<lambda>h. True), print_outcome = (\<lambda>n. Threw), subscribe_ok = (\<lambda>c. True)\<rparr>"

definition env_works :: env where
  "env_works =
     \<lparr>open_ok = (\<lambda>h. True), print_outcome = (\<lambda>n. Completed), subscribe_ok = (\<lambda>c. True)\<rparr>"

text \<open>
  An environment in which the first device opens and the first submission completes, and
  after that every submission throws and no device opens: the printer is unplugged after
  its first receipt.
\<close>

definition env_works_once :: env where
  "env_works_once =
     \<lparr>open_ok = (\<lambda>h. h = 0), print_outcome = (\<lambda>n. if n = 0 then Completed else Threw),
      subscribe_ok = (\<lambda>c. True)\<rparr>"

text \<open>
  Row 7 has been handed to \<open>addToQueue\<close> and taken by the worker: its delivery is in
  flight.
\<close>

definition job7_in_flight :: "nat agent" where
  "job7_in_flight =
     (let s1 = snd (addToQueue 7 receipt initial)
      in s1\<lparr>printQueue := snd (next_begin (printQueue (take_immediate s1)))\<rparr>)"

lemma receipt_valid: "isValidJobPayload receipt"
  by (simp add: isValidJobPayload_def receipt_def)

lemmas gpc_defs = getPrinterConnection_def gpc_call_def gpc_loop_def gpc_after_wait_def
  gpc_open_def gpc_timer_def gpc_opened_def ready_def cleanupPrinterConnection_def emit_def
  wait_def Let_def

lemmas run_defs = performPrint.simps performPrint_try_def gpc_defs receipt_valid initial_def
  MAX_RETRIES_def RETRY_BACKOFF_BASE_def QUEUE_MAX_LENGTH_def new_PrintQueue_def

section \<open>The claims\<close>

subsection \<open>C1: attempts and backoff of a delivery that always fails\<close>

text \<open>
  C1 says that a delivery whose connection or submission fails every time makes exactly
  3 attempts, waits \<open>base * 2^attempt\<close> before each retry, and then rethrows the last
  error. The waits and the rethrown error are as claimed. The number of attempts is not:
  \<open>performPrint\<close> retries while \<open>retryCount < MAX_RETRIES\<close>, so with \<open>MAX_RETRIES = 3\<close>
  it runs with \<open>retryCount\<close> 0, 1, 2 and 3. Started at \<open>retryCount = 0\<close> on job 7 it
  submits four times when every submission throws, and opens the device four times when
  the device never opens, with waits of 1000, 2000 and 4000 ms in between. Its own log
  line counts the attempts as \<open>retryCount + 1\<close> of \<open>MAX_RETRIES\<close>, which reads
  "attempt 4/3" on the last one.
\<close>

theorem performPrint_makes_four_attempts:
  "fst (performPrint env_submit_fails (7::nat) receipt 0 initial) = Inl SubmitFailed \<and>
   trace (snd (performPrint env_submit_fails (7::nat) receipt 0 initial)) =
     [DeviceOpen 0, Submit 7 0, Cleanup, Wait 1000,
      DeviceOpen 1, Submit 7 1, Cleanup, Wait 2000,
      DeviceOpen 2, Submit 7 2, Cleanup, Wait 4000,
      DeviceOpen 3, Submit 7 3, Cleanup] \<and>
   fst (performPrint env_open_fails (7::nat) receipt 0 initial) = Inl OpenFailed \<and>
   trace (snd (performPrint env_open_fails (7::nat) receipt 0 initial)) =
     [DeviceOpen 0, Cleanup, Cleanup, Wait 1000,
      DeviceOpen 1, Cleanup, Cleanup, Wait 2000,
      DeviceOpen 2, Cleanup, Cleanup, Wait 4000,
      DeviceOpen 3, Cleanup, Cleanup]"
  by (simp add: run_defs env_submit_fails_def env_open_fails_def)

subsection \<open>C2: the terminal status of a delivered job\<close>

text \<open>
  When nothing new is pushed, the worker empties the buffer: it delivers the queued jobs
  one after the other, and the ledger gets one update per job, in the order of the
  buffer, each \<open>printed\<close> or \<open>error\<close>.
\<close>

lemma run_immediates_drains:
  assumes "running (printQueue s) < concurrency (printQueue s)"
    and "queue (printQueue s) \<noteq> [] \<longrightarrow> scheduled (printQueue s) > 0"
  shows "queue (printQueue (run_immediates env s)) = [] \<and>
         (\<exists>sts. length sts = length (queue (printQueue s)) \<and> set sts \<subseteq> {Printed, Error} \<and>
            ledger_writes (trace (run_immediates env s)) =
              ledger_writes (trace s) @ zip (map job_id (queue (printQueue s))) sts)"
  using assms
proof (induction env s rule: run_immediates.induct)
  case (1 env s)
  show ?case
  proof (cases "scheduled (printQueue s) = 0")
    case True
    with "1.prems" have "queue (printQueue s) = []" by auto
    with True show ?thesis by (simp add: run_immediates.simps)
  next
    case False
    let ?s' = "PrintQueue_next env (take_immediate s)"
    have run: "run_immediates env s = run_immediates env ?s'"
      using False by (simp add: run_immediates.simps[of env s])
    show ?thesis
    proof (cases "queue (printQueue s)")
      case Nil
      then have "fst (next_begin (printQueue (take_immediate s))) = None"
        by (simp add: next_begin_def take_immediate_def)
      then have s': "?s' = take_immediate s" by (rule PrintQueue_next_idle)
      have "queue (printQueue (run_immediates env ?s')) = [] \<and>
         (\<exists>sts. length sts = length (queue (printQueue ?s')) \<and> set sts \<subseteq> {Printed, Error} \<and>
            ledger_writes (trace (run_immediates env ?s')) =
              ledger_writes (trace ?s') @ zip (map job_id (queue (printQueue ?s'))) sts)"
        using "1.IH"[OF False] "1.prems" Nil s' by (simp add: take_immediate_def)
      with Nil s' run show ?thesis by (simp add: take_immediate_def)
    next
      case (Cons j js)
      let ?q = "(printQueue (take_immediate s))\<lparr>queue := js, running := running (printQueue s) + 1\<rparr>"
      have nb: "next_begin (printQueue (take_immediate s)) = (Some j, ?q)"
        using Cons "1.prems"(1) by (simp add: next_begin_def take_immediate_def)
      have pq: "printQueue ?s' = next_finish ?q" by (rule PrintQueue_next_queue[OF nb])
      define st where "st =
        (if fst (performPrint env (job_id j) (payload j) 0 (take_immediate s\<lparr>printQueue := ?q\<rparr>)) = Inr ()
         then Printed else Error)"
      have st: "st = Printed \<or> st = Error" by (simp add: st_def)
      have w: "ledger_writes (trace ?s') = ledger_writes (trace s) @ [(job_id j, st)]"
        using PrintQueue_next_ledger[OF nb, of env] by (simp add: st_def take_immediate_def)
      have "running (printQueue ?s') < concurrency (printQueue ?s')"
        and "queue (printQueue ?s') \<noteq> [] \<longrightarrow> scheduled (printQueue ?s') > 0"
        and qs: "queue (printQueue ?s') = js"
        using pq "1.prems"(1) by (simp_all add: next_finish_def take_immediate_def)
      from "1.IH"[OF False this(1,2)] obtain sts where
        e: "queue (printQueue (run_immediates env ?s')) = []"
        and l: "length sts = length js" and ss: "set sts \<subseteq> {Printed, Error}"
        and lw: "ledger_writes (trace (run_immediates env ?s')) =
              ledger_writes (trace ?s') @ zip (map job_id js) sts"
        using qs by auto
      have "length (st # sts) = length (queue (printQueue s))" using l Cons by simp
      moreover have "set (st # sts) \<subseteq> {Printed, Error}" using st ss by auto
      moreover have "ledger_writes (trace (run_immediates env s)) =
          ledger_writes (trace s) @ zip (map job_id (queue (printQueue s))) (st # sts)"
        using run lw w Cons by simp
      ultimately show ?thesis using run e by metis
    qed
  qed
qed

text \<open>
  C2 says that for every ledger row the agent handles exactly one terminal status is
  written. That fails for a row as a whole, because a row can be delivered twice: the
  queue's duplicate check looks at the buffer only, so a row that is handed to
  \<open>addToQueue\<close> again while its delivery is in flight (a reconciliation pull finds it
  still \<open>pending\<close>) is queued again, and each delivery writes its own status. Row 7 is
  in flight and pushed a second time; its first delivery prints and writes \<open>printed\<close>,
  then the printer is unplugged, and its second delivery fails and writes \<open>error\<close>.
\<close>

theorem row_written_printed_then_error:
  "ledger_writes (trace (run_immediates env_works_once
       (end_delivery (printTicketSafe env_works_once 7 receipt
          (snd (addToQueue 7 receipt job7_in_flight)))))) =
     [(7, Printed), (7, Error)]"
  by (simp add: run_defs run_immediates.simps addToQueue_def push_def next_begin_def
      next_finish_def take_immediate_def printTicketSafe_def PrintQueue_next_def
      end_delivery_def job7_in_flight_def env_works_once_def)

text \<open>
  C2 as amended, for a delivery instead of a row. \<open>printTicketSafe\<close> makes exactly one
  update of the ledger, for the job's id: \<open>printed\<close> when \<open>performPrint\<close> returned and
  \<open>error\<close> when it threw, and so never both and never another status. \<open>next()\<close> does
  the same for the job it takes from the buffer. And a worker that is free, with a
  callback registered if the buffer is not empty, empties the buffer and makes one such
  update per queued job, in the order of the buffer, so no queued job stays without a
  terminal status.
\<close>

theorem each_delivery_writes_one_terminal_status:
  assumes "running (printQueue s) < concurrency (printQueue s)"
    and "queue (printQueue s) \<noteq> [] \<longrightarrow> scheduled (printQueue s) > 0"
  shows
    "ledger_writes (trace (printTicketSafe env i pl s)) =
       ledger_writes (trace s) @
         [(i, if fst (performPrint env i pl 0 s) = Inr () then Printed else Error)] \<and>
     (\<forall>j q. next_begin (printQueue s) = (Some j, q) \<longrightarrow>
        ledger_writes (trace (PrintQueue_next env s)) =
          ledger_writes (trace s) @
            [(job_id j,
              if fst (performPrint env (job_id j) (payload j) 0 (s\<lparr>printQueue := q\<rparr>)) = Inr ()
              then Printed else Error)]) \<and>
     queue (printQueue (run_immediates env s)) = [] \<and>
     (\<exists>sts. length sts = length (queue (printQueue s)) \<and> set sts \<subseteq> {Printed, Error} \<and>
        ledger_writes (trace (run_immediates env s)) =
          ledger_writes (trace s) @ zip (map job_id (queue (printQueue s))) sts)"
  using run_immediates_drains[OF assms, of env] printTicketSafe_ledger[of env i pl s]
    PrintQueue_next_ledger[of s _ _ env]
  by blast

theorem each_delivery_writes_one_terminal_status_witness:
  "running (printQueue (snd (addToQueue 8 receipt (snd (addToQueue (7::nat) receipt initial)))))
     < concurrency (printQueue (snd (addToQueue 8 receipt (snd (addToQueue (7::nat) receipt initial))))) \<and>
   scheduled (printQueue (snd (addToQueue 8 receipt (snd (addToQueue (7::nat) receipt initial))))) > 0 \<and>
   queue (printQueue (run_immediates env_works
     (snd (addToQueue 8 receipt (snd (addToQueue (7::nat) receipt initial)))))) = [] \<and>
   ledger_writes (trace (run_immediates env_works
     (snd (addToQueue 8 receipt (snd (addToQueue (7::nat) receipt initial)))))) =
     [(7, Printed), (8, Printed)]"
proof -
  let ?s = "snd (addToQueue 8 receipt (snd (addToQueue (7::nat) receipt initial)))"
  have r: "running (printQueue ?s) < concurrency (printQueue ?s)"
    by (simp add: addToQueue_def push_def receipt_valid initial_def new_PrintQueue_def
        QUEUE_MAX_LENGTH_def)
  have c: "scheduled (printQueue ?s) > 0"
    by (simp add: addToQueue_def push_def receipt_valid initial_def new_PrintQueue_def
        QUEUE_MAX_LENGTH_def)
  then have c': "queue (printQueue ?s) \<noteq> [] \<longrightarrow> scheduled (printQueue ?s) > 0" by simp
  have w: "ledger_writes (trace (run_immediates env_works ?s)) = [(7, Printed), (8, Printed)]"
    by (simp add: run_defs run_immediates.simps addToQueue_def push_def next_begin_def
        next_finish_def take_immediate_def printTicketSafe_def PrintQueue_next_def env_works_def)
  from each_delivery_writes_one_terminal_status[OF r c', of env_works 7 receipt]
  have "queue (printQueue (run_immediates env_works ?s)) = []" by blast
  with r c w show ?thesis by blast
qed

subsection \<open>C3: the buffer never holds an id twice\<close>

text \<open>
  C3: in every state the queue can reach by \<open>push\<close> and \<open>next\<close>, no two entries of the
  buffer have the same id, and a \<open>push\<close> of a job whose id is already in the buffer
  returns \<open>false\<close> and leaves the queue as it was.
\<close>

theorem queue_holds_no_duplicate_id:
  assumes "reachable q fl"
  shows "distinct (map job_id (queue q)) \<and>
         (\<forall>j. job_id j \<in> set (map job_id (queue q)) \<longrightarrow> push j q = (False, q))"
  using reachable_distinct[OF assms] by (auto simp: push_def list_ex_iff)

theorem queue_holds_no_duplicate_id_witness:
  "reachable (snd (push \<lparr>job_id = 7::nat, payload = receipt\<rparr> (new_PrintQueue 1 300))) [] \<and>
   distinct (map job_id
     (queue (snd (push \<lparr>job_id = 7::nat, payload = receipt\<rparr> (new_PrintQueue 1 300))))) \<and>
   push \<lparr>job_id = 7, payload = JNull\<rparr>
     (snd (push \<lparr>job_id = 7::nat, payload = receipt\<rparr> (new_PrintQueue 1 300))) =
     (False, snd (push \<lparr>job_id = 7::nat, payload = receipt\<rparr> (new_PrintQueue 1 300)))"
proof -
  let ?q = "snd (push \<lparr>job_id = 7::nat, payload = receipt\<rparr> (new_PrintQueue 1 300))"
  have r: "reachable ?q []" by (rule reachable.Push[OF reachable.New])
  have m: "job_id \<lparr>job_id = 7::nat, payload = JNull\<rparr> \<in> set (map job_id (queue ?q))"
    by (simp add: push_def new_PrintQueue_def)
  from queue_holds_no_duplicate_id[OF r] m r show ?thesis by blast
qed

subsection \<open>C4: a full queue rejects, and the gate fails to mark the job\<close>

text \<open>
  C4 says that when the buffer is as long as \<open>maxLength\<close> or longer, \<open>push\<close> of any
  job returns \<open>false\<close> and the buffer does not grow, and that \<open>addToQueue\<close> then
  writes the status \<open>error\<close> to the ledger for that id. The first half holds. The
  second does not: on the rejection \<open>addToQueue\<close> throws a \<open>TypeError\<close> and leaves the
  agent as it was, trace included, so no update of the ledger is sent; and when the
  payload is invalid it throws the same way before it reaches \<open>push\<close>.
\<close>

theorem full_queue_rejects_and_no_error_is_written:
  assumes "length (queue (printQueue s)) \<ge> maxLength (printQueue s)"
  shows "push j (printQueue s) = (False, printQueue s) \<and>
         addToQueue i pl s = (Inl TypeError, s)"
  using assms by (simp add: push_def addToQueue_def)

theorem full_queue_rejects_and_no_error_is_written_witness:
  "length (queue (printQueue (initial\<lparr>printQueue :=
       \<lparr>concurrency = 1, maxLength = 1, queue = [\<lparr>job_id = 7::nat, payload = receipt\<rparr>],
        running = 0, scheduled = 1\<rparr>\<rparr>)))
     \<ge> maxLength (printQueue (initial\<lparr>printQueue :=
       \<lparr>concurrency = 1, maxLength = 1, queue = [\<lparr>job_id = 7::nat, payload = receipt\<rparr>],
        running = 0, scheduled = 1\<rparr>\<rparr>)) \<and>
   fst (addToQueue 8 receipt (initial\<lparr>printQueue :=
       \<lparr>concurrency = 1, maxLength = 1, queue = [\<lparr>job_id = 7::nat, payload = receipt\<rparr>],
        running = 0, scheduled = 1\<rparr>\<rparr>)) = Inl TypeError \<and>
   queue (printQueue (snd (addToQueue 8 receipt (initial\<lparr>printQueue :=
       \<lparr>concurrency = 1, maxLength = 1, queue = [\<lparr>job_id = 7::nat, payload = receipt\<rparr>],
        running = 0, scheduled = 1\<rparr>\<rparr>)))) = [\<lparr>job_id = 7::nat, payload = receipt\<rparr>] \<and>
   trace (snd (addToQueue 8 receipt (initial\<lparr>printQueue :=
       \<lparr>concurrency = 1, maxLength = 1, queue = [\<lparr>job_id = 7::nat, payload = receipt\<rparr>],
        running = 0, scheduled = 1\<rparr>\<rparr>))) = []"
  using full_queue_rejects_and_no_error_is_written
    [of "initial\<lparr>printQueue :=
       \<lparr>concurrency = 1, maxLength = 1, queue = [\<lparr>job_id = 7::nat, payload = receipt\<rparr>],
        running = 0, scheduled = 1\<rparr>\<rparr>" "\<lparr>job_id = 8, payload = receipt\<rparr>" 8 receipt]
  by (simp add: initial_def)

subsection \<open>C5: a payload that fails the shape check\<close>

text \<open>
  C5 says that a payload which fails \<open>isValidJobPayload\<close> (\<open>isValidJobPayload_iff\<close>
  says which payloads pass) is a terminal error with no retry: \<open>addToQueue\<close> marks the
  row \<open>error\<close> without queuing it, and \<open>performPrint\<close> throws at once. The job is
  indeed not queued, and \<open>performPrint\<close>, at any \<open>retryCount\<close>, throws and leaves the
  agent exactly as it was: no connection was asked for, nothing was submitted and
  nothing was waited for. But \<open>addToQueue\<close> does not mark the row: it throws a
  \<open>TypeError\<close> and leaves the agent as it was, trace included, so no update of the
  ledger is sent.
\<close>

theorem invalid_payload_is_not_marked:
  assumes "\<not> isValidJobPayload pl"
  shows "addToQueue i pl s = (Inl TypeError, s) \<and>
         performPrint env i pl retryCount s = (Inl InvalidPayload, s)"
  using assms by (simp add: addToQueue_def performPrint.simps)

theorem invalid_payload_is_not_marked_witness:
  "\<not> isValidJobPayload (JObj [(''invoice'', JObj []), (''totals'', JObj [(''total'', JStr ''12'')]),
       (''items'', JArr [])]) \<and>
   fst (addToQueue (7::nat)
       (JObj [(''invoice'', JObj []), (''totals'', JObj [(''total'', JStr ''12'')]),
         (''items'', JArr [])]) initial) = Inl TypeError \<and>
   trace (snd (addToQueue (7::nat)
       (JObj [(''invoice'', JObj []), (''totals'', JObj [(''total'', JStr ''12'')]),
         (''items'', JArr [])]) initial)) = [] \<and>
   queue (printQueue (snd (addToQueue (7::nat)
       (JObj [(''invoice'', JObj []), (''totals'', JObj [(''total'', JStr ''12'')]),
         (''items'', JArr [])]) initial))) = [] \<and>
   performPrint env_works (7::nat)
       (JObj [(''invoice'', JObj []), (''totals'', JObj [(''total'', JStr ''12'')]),
         (''items'', JArr [])]) 0 initial = (Inl InvalidPayload, initial)"
proof -
  have bad: "\<not> isValidJobPayload (JObj [(''invoice'', JObj []),
      (''totals'', JObj [(''total'', JStr ''12'')]), (''items'', JArr [])])"
    by (simp add: isValidJobPayload_def)
  have i: "trace (initial :: nat agent) = []" "queue (printQueue (initial :: nat agent)) = []"
    by (simp_all add: initial_def new_PrintQueue_def)
  from invalid_payload_is_not_marked[OF bad, of "7::nat" initial env_works 0] bad i
  show ?thesis by simp
qed

text \<open>
  In a reconciliation pull the exception leaves the loop over the rows: row 7, whose
  payload is \<open>null\<close>, is not marked, and row 8 after it, whose payload is valid, is not
  queued by this pull.
\<close>

lemma invalid_row_ends_the_pull:
  "trace (processPending (Inr [(7::nat, JNull), (8, receipt)]) initial) = [SelectPending] \<and>
   queue (printQueue (processPending (Inr [(7::nat, JNull), (8, receipt)]) initial)) = []"
  by (simp add: processPending_def addToQueue_def isValidJobPayload_def emit_def initial_def
      new_PrintQueue_def)

subsection \<open>C6: a call that finds an open in progress\<close>

text \<open>
  C6 says that a call which finds an open in progress makes no physical open of its own
  within the grace period, and makes one only after the grace period has run out without
  a ready connection. The loop at line 129 waits only while \<open>isDeviceInitializing\<close> is
  set, so the second open can come much earlier. Task 0 starts the open, task 1 calls
  and waits; the open of task 0 fails, which clears the flag; at its first poll, 200 ms
  after its call, task 1 opens a second device object.
\<close>

theorem second_open_before_grace_period_ends:
  "fst (fold gpc_step [Call 0, Call 1, OpenDone 0 False, Timer 1]
          (Map.empty, initial :: nat agent)) 1 = Some (Opening 1) \<and>
   trace (snd (fold gpc_step [Call 0, Call 1, OpenDone 0 False, Timer 1]
          (Map.empty, initial :: nat agent))) =
     [DeviceOpen 0, Wait 200, Cleanup, DeviceOpen 1]"
  by (simp add: gpc_defs initial_def)

text \<open>
  C6 as amended. A call that finds no ready connection and the flag set makes no
  physical open and waits. Each time a waiting call is resumed, in whatever state the
  other tasks have left the agent: while the flag is set and fewer than 5000 ms have
  been waited it waits another 200 ms; otherwise it returns the stored connection if
  there is one, and if there is none it makes its own physical open. So it opens exactly
  when no connection is ready and the flag has been cleared or the 5000 ms are over. And
  when the open in progress succeeds, the waiting call returns, at its next poll, the
  handles the opening call returned, and no second open is made.
\<close>

theorem waiting_call_opens_only_when_flag_clear_or_grace_over:
  assumes "cs p = Some (Waiting w)"
  shows
    "(\<not> ready s \<and> isDeviceInitializing s \<longrightarrow>
        gpc_step (Call r) (cs, s) = (cs(r \<mapsto> Waiting 0), wait 200 s)) \<and>
     (isDeviceInitializing s \<and> w + 200 < 5000 \<longrightarrow>
        gpc_step (Timer p) (cs, s) = (cs(p \<mapsto> Waiting (w + 200)), wait 200 s)) \<and>
     (\<not> (isDeviceInitializing s \<and> w + 200 < 5000) \<and> ready s \<longrightarrow>
        gpc_step (Timer p) (cs, s) =
          (cs(p \<mapsto> Returned (the (persistentDevice s)) (the (persistentPrinter s))), s)) \<and>
     (\<not> (isDeviceInitializing s \<and> w + 200 < 5000) \<and> \<not> ready s \<longrightarrow>
        gpc_step (Timer p) (cs, s) =
          (cs(p \<mapsto> Opening (devices s)),
           emit (DeviceOpen (devices s))
             (s\<lparr>isDeviceInitializing := True, devices := devices s + 1\<rparr>))) \<and>
     (q \<noteq> p \<and> cs q = Some (Opening h) \<longrightarrow>
        fst (gpc_step (Timer p) (gpc_step (OpenDone q True) (cs, s))) q = Some (Returned h h) \<and>
        fst (gpc_step (Timer p) (gpc_step (OpenDone q True) (cs, s))) p = Some (Returned h h) \<and>
        trace (snd (gpc_step (Timer p) (gpc_step (OpenDone q True) (cs, s)))) = trace s)"
  using assms
  by (auto simp: gpc_timer_def gpc_loop_def gpc_after_wait_def gpc_open_def gpc_call_def
      gpc_opened_def ready_def Let_def)

theorem waiting_call_opens_only_when_flag_clear_or_grace_over_witness:
  "fst (fold gpc_step [Call 0, Call 1] (Map.empty, initial :: nat agent)) 1 = Some (Waiting 0) \<and>
   fst (fold gpc_step [Call 0, Call 1] (Map.empty, initial :: nat agent)) 0 = Some (Opening 0) \<and>
   fst (fold gpc_step [Call 0, Call 1, OpenDone 0 True, Timer 1]
          (Map.empty, initial :: nat agent)) 0 = Some (Returned 0 0) \<and>
   fst (fold gpc_step [Call 0, Call 1, OpenDone 0 True, Timer 1]
          (Map.empty, initial :: nat agent)) 1 = Some (Returned 0 0) \<and>
   trace (snd (fold gpc_step [Call 0, Call 1, OpenDone 0 True, Timer 1]
          (Map.empty, initial :: nat agent))) = [DeviceOpen 0, Wait 200]"
proof -
  let ?st = "fold gpc_step [Call 0, Call 1] (Map.empty, initial :: nat agent)"
  have w: "fst ?st 1 = Some (Waiting 0)" and o: "fst ?st 0 = Some (Opening 0)"
    and t: "trace (snd ?st) = [DeviceOpen 0, Wait 200]"
    by (simp_all add: gpc_defs initial_def)
  from waiting_call_opens_only_when_flag_clear_or_grace_over
         [where cs = "fst ?st" and p = 1 and w = 0 and s = "snd ?st" and q = 0 and h = 0] w o
  have "fst (gpc_step (Timer 1) (gpc_step (OpenDone 0 True) (fst ?st, snd ?st))) 0 =
          Some (Returned 0 0) \<and>
        fst (gpc_step (Timer 1) (gpc_step (OpenDone 0 True) (fst ?st, snd ?st))) 1 =
          Some (Returned 0 0) \<and>
        trace (snd (gpc_step (Timer 1) (gpc_step (OpenDone 0 True) (fst ?st, snd ?st)))) =
          trace (snd ?st)"
    by simp
  with w o t show ?thesis by simp
qed

subsection \<open>C7: the delay before a resubscription\<close>

lemma pow2_exact: "k \<le> 1023 \<Longrightarrow> pow2 k = Exact (2 ^ k)"
proof -
  assume "k \<le> 1023"
  then have "(2::nat) ^ k \<le> 2 ^ 1023" by (intro power_increasing) simp_all
  also have "(2::nat) ^ 1023 \<le> MAX_VALUE" by (simp add: MAX_VALUE_def)
  finally show ?thesis by (simp add: pow2_def double_of_def)
qed

lemma pow2_overflow: "1024 \<le> k \<Longrightarrow> pow2 k = Infinity"
proof -
  assume "1024 \<le> k"
  then have "(2::nat) ^ 1024 \<le> 2 ^ k" by (intro power_increasing) simp_all
  moreover have "MAX_VALUE < (2::nat) ^ 1024" by (simp add: MAX_VALUE_def)
  ultimately show ?thesis by (simp add: pow2_def double_of_def)
qed

lemma listener_backoff_exact:
  assumes "1 \<le> n" and "n \<le> 1015"
  shows "listener_backoff n = Exact (LISTENER_BACKOFF_BASE * 2 ^ (n - 1))"
proof -
  from assms have k: "nat (max 0 (int n - 1)) = n - 1" and le: "n - 1 \<le> 1014" by auto
  from le have "(2::nat) ^ (n - 1) \<le> 2 ^ 1014" by (intro power_increasing) simp_all
  then have "LISTENER_BACKOFF_BASE * 2 ^ (n - 1) \<le> LISTENER_BACKOFF_BASE * 2 ^ 1014"
    by (rule mult_le_mono2)
  also have "LISTENER_BACKOFF_BASE * 2 ^ 1014 \<le> MAX_VALUE"
    by (simp add: MAX_VALUE_def LISTENER_BACKOFF_BASE_def)
  finally have "LISTENER_BACKOFF_BASE * 2 ^ (n - 1) \<le> MAX_VALUE" .
  moreover from le have "pow2 (n - 1) = Exact (2 ^ (n - 1))" by (intro pow2_exact) simp
  ultimately show ?thesis by (simp add: listener_backoff_def k double_of_def)
qed

lemma listener_backoff_overflow:
  assumes "1016 \<le> n"
  shows "listener_backoff n = Infinity"
proof -
  from assms have k: "nat (max 0 (int n - 1)) = n - 1" and ge: "1015 \<le> n - 1" by auto
  show ?thesis
  proof (cases "n - 1 \<le> 1023")
    case True
    have "MAX_VALUE < LISTENER_BACKOFF_BASE * 2 ^ 1015"
      by (simp add: MAX_VALUE_def LISTENER_BACKOFF_BASE_def)
    also have "\<dots> \<le> LISTENER_BACKOFF_BASE * 2 ^ (n - 1)"
      using ge by (intro mult_le_mono2 power_increasing) simp_all
    finally have "\<not> LISTENER_BACKOFF_BASE * 2 ^ (n - 1) \<le> MAX_VALUE"
      by (simp only: not_le)
    with pow2_exact[OF True] show ?thesis by (simp add: listener_backoff_def k double_of_def)
  next
    case False
    then have "pow2 (n - 1) = Infinity" by (intro pow2_overflow) simp
    then show ?thesis by (simp add: listener_backoff_def k)
  qed
qed

lemma listener_backoff_applied:
  assumes "1 \<le> n" and "n \<le> 22"
  shows "applied_delay (listener_backoff n) = LISTENER_BACKOFF_BASE * 2 ^ (n - 1)"
proof -
  from assms have "(2::nat) ^ (n - 1) \<le> 2 ^ 21" by (intro power_increasing) simp_all
  then have "LISTENER_BACKOFF_BASE * 2 ^ (n - 1) \<le> LISTENER_BACKOFF_BASE * 2 ^ 21"
    by (rule mult_le_mono2)
  also have "LISTENER_BACKOFF_BASE * 2 ^ 21 \<le> TIMEOUT_MAX"
    by (simp add: TIMEOUT_MAX_def LISTENER_BACKOFF_BASE_def)
  finally have "LISTENER_BACKOFF_BASE * 2 ^ (n - 1) \<le> TIMEOUT_MAX" .
  moreover have "1 \<le> LISTENER_BACKOFF_BASE * 2 ^ (n - 1)"
    by (simp add: LISTENER_BACKOFF_BASE_def)
  moreover from assms have "listener_backoff n = Exact (LISTENER_BACKOFF_BASE * 2 ^ (n - 1))"
    by (intro listener_backoff_exact) simp_all
  ultimately show ?thesis by (simp add: applied_delay_def)
qed

text \<open>
  C7 says that after the n-th failure in a row the next subscribe attempt is scheduled
  after \<open>base * 2^(n-1)\<close>, for every \<open>n\<close> from 1 on, that the number of attempts is not
  capped, and that the computed delay saturates at a finite ceiling. The code computes
  the product and nothing else, in the callback and in the \<open>catch\<close> of
  \<open>setupListener\<close> alike. So the computed delay does not stay below a ceiling: at the
  1016th failure it is \<open>Infinity\<close>. And the attempt is not always scheduled after the
  computed delay: at the 23rd failure the computed delay, 4194304000 ms, is above what a
  timer accepts, and the timer fires after 1 ms, where it waited 2097152000 ms at the
  22nd.
\<close>

theorem listener_backoff_saturates_counterexample:
  "listener_backoff 1016 = Infinity \<and>
   listener_backoff 23 = Exact 4194304000 \<and>
   applied_delay (listener_backoff 23) = 1 \<and>
   applied_delay (listener_backoff 22) = 2097152000"
proof -
  have "listener_backoff 1016 = Infinity" by (rule listener_backoff_overflow) simp
  moreover have b: "listener_backoff 23 = Exact 4194304000"
    using listener_backoff_exact[of 23] by (simp add: LISTENER_BACKOFF_BASE_def)
  moreover from b have "applied_delay (listener_backoff 23) = 1"
    by (simp add: applied_delay_def TIMEOUT_MAX_def)
  moreover have "applied_delay (listener_backoff 22) = 2097152000"
    using listener_backoff_applied[of 22] by (simp add: LISTENER_BACKOFF_BASE_def)
  ultimately show ?thesis by simp
qed

text \<open>
  C7 as amended. When the callback of \<open>subscribe\<close> gets \<open>CLOSED\<close>, \<open>CHANNEL_ERROR\<close> or
  \<open>TIMED_OUT\<close>, whatever \<open>listenerAttempt\<close> is, it removes the channel, adds one to
  \<open>listenerAttempt\<close> and hands \<open>setTimeout\<close> the delay computed from the new count;
  \<open>setupListener\<close> does the same when subscribing throws. For a count \<open>n\<close> from 1 to
  1015 the computed delay is \<open>base * 2^(n-1)\<close>, and from 1016 on it is \<open>Infinity\<close>: no
  finite ceiling holds for it. For a count from 1 to 22 the timer waits the computed
  delay.
\<close>

theorem listener_backoff_has_no_ceiling:
  assumes "st \<in> {''CLOSED'', ''CHANNEL_ERROR'', ''TIMED_OUT''}"
  shows
    "listenerAttempt (on_status c st a s) = listenerAttempt s + 1 \<and>
     trace (on_status c st a s) =
       trace s @ [RemoveChannel c, Schedule (listener_backoff (listenerAttempt s + 1))] \<and>
     (channel s = None \<and> \<not> subscribe_ok env (channels s) \<longrightarrow>
        listenerAttempt (setupListener env s) = listenerAttempt s + 1 \<and>
        trace (setupListener env s) =
          trace s @ [Subscribe (channels s), Schedule (listener_backoff (listenerAttempt s + 1))]) \<and>
     (\<forall>n. 1 \<le> n \<and> n \<le> 1015 \<longrightarrow>
        listener_backoff n = Exact (LISTENER_BACKOFF_BASE * 2 ^ (n - 1))) \<and>
     (\<forall>n. 1016 \<le> n \<longrightarrow> listener_backoff n = Infinity) \<and>
     (\<forall>n. 1 \<le> n \<and> n \<le> 22 \<longrightarrow>
        applied_delay (listener_backoff n) = LISTENER_BACKOFF_BASE * 2 ^ (n - 1)) \<and>
     \<not> (\<exists>bound. \<forall>n\<ge>1. \<exists>v\<le>bound. listener_backoff n = Exact v)"
proof -
  from assms have "st \<noteq> ''SUBSCRIBED''" by auto
  with assms have
    "listenerAttempt (on_status c st a s) = listenerAttempt s + 1 \<and>
     trace (on_status c st a s) =
       trace s @ [RemoveChannel c, Schedule (listener_backoff (listenerAttempt s + 1))]"
    by (simp add: on_status_def Let_def emit_def)
  moreover have "channel s = None \<and> \<not> subscribe_ok env (channels s) \<longrightarrow>
        listenerAttempt (setupListener env s) = listenerAttempt s + 1 \<and>
        trace (setupListener env s) =
          trace s @ [Subscribe (channels s), Schedule (listener_backoff (listenerAttempt s + 1))]"
    by (simp add: setupListener_def Let_def emit_def)
  moreover have "\<forall>n. 1 \<le> n \<and> n \<le> 1015 \<longrightarrow>
        listener_backoff n = Exact (LISTENER_BACKOFF_BASE * 2 ^ (n - 1))"
    by (simp add: listener_backoff_exact)
  moreover have "\<forall>n. 1016 \<le> n \<longrightarrow> listener_backoff n = Infinity"
    by (simp add: listener_backoff_overflow)
  moreover have "\<forall>n. 1 \<le> n \<and> n \<le> 22 \<longrightarrow>
        applied_delay (listener_backoff n) = LISTENER_BACKOFF_BASE * 2 ^ (n - 1)"
    by (simp add: listener_backoff_applied)
  moreover have "\<not> (\<exists>bound. \<forall>n\<ge>1. \<exists>v\<le>bound. listener_backoff n = Exact v)"
  proof
    assume "\<exists>bound. \<forall>n\<ge>1. \<exists>v\<le>bound. listener_backoff n = Exact v"
    then obtain bound where "\<forall>n\<ge>1. \<exists>v\<le>bound. listener_backoff n = Exact v" ..
    then have "\<exists>v\<le>bound. listener_backoff 1016 = Exact v" by simp
    moreover have "listener_backoff 1016 = Infinity" by (rule listener_backoff_overflow) simp
    ultimately show False by simp
  qed
  ultimately show ?thesis by blast
qed

theorem listener_backoff_has_no_ceiling_witness:
  "''TIMED_OUT'' \<in> {''CLOSED'', ''CHANNEL_ERROR'', ''TIMED_OUT''} \<and>
   listenerAttempt (on_status 0 ''TIMED_OUT'' (Inr []) ((initial :: nat agent)\<lparr>listenerAttempt := 2\<rparr>)) = 3 \<and>
   trace (on_status 0 ''TIMED_OUT'' (Inr []) ((initial :: nat agent)\<lparr>listenerAttempt := 2\<rparr>)) =
     [RemoveChannel 0, Schedule (Exact 4000)] \<and>
   applied_delay (listener_backoff 3) = 4000"
proof -
  have m: "''TIMED_OUT'' \<in> {''CLOSED'', ''CHANNEL_ERROR'', ''TIMED_OUT''}" by simp
  note t = listener_backoff_has_no_ceiling[OF m,
      of 0 "Inr []" "(initial :: nat agent)\<lparr>listenerAttempt := 2\<rparr>" env_works]
  from t have e: "\<forall>n. 1 \<le> n \<and> n \<le> 1015 \<longrightarrow>
        listener_backoff n = Exact (LISTENER_BACKOFF_BASE * 2 ^ (n - 1))"
    and f: "\<forall>n. 1 \<le> n \<and> n \<le> 22 \<longrightarrow>
        applied_delay (listener_backoff n) = LISTENER_BACKOFF_BASE * 2 ^ (n - 1)"
    by blast+
  have b: "listener_backoff 3 = Exact (LISTENER_BACKOFF_BASE * 2 ^ (3 - 1))"
    using e[rule_format, of 3] by simp
  have d: "applied_delay (listener_backoff 3) = LISTENER_BACKOFF_BASE * 2 ^ (3 - 1)"
    using f[rule_format, of 3] by simp
  from t have
    "listenerAttempt (on_status 0 ''TIMED_OUT'' (Inr []) ((initial :: nat agent)\<lparr>listenerAttempt := 2\<rparr>)) =
       listenerAttempt ((initial :: nat agent)\<lparr>listenerAttempt := 2\<rparr>) + 1"
    and "trace (on_status 0 ''TIMED_OUT'' (Inr []) ((initial :: nat agent)\<lparr>listenerAttempt := 2\<rparr>)) =
       trace ((initial :: nat agent)\<lparr>listenerAttempt := 2\<rparr>) @
         [RemoveChannel 0,
          Schedule (listener_backoff (listenerAttempt ((initial :: nat agent)\<lparr>listenerAttempt := 2\<rparr>) + 1))]"
    by blast+
  with b d m show ?thesis by (simp add: initial_def LISTENER_BACKOFF_BASE_def)
qed

subsection \<open>C8: what the watchdog does on a tick\<close>

lemma addToQueue_trace: "trace (snd (addToQueue i pl s)) = trace s"
  by (simp add: addToQueue_def split_beta)

lemma forEach_addToQueue_trace: "trace (snd (forEach_addToQueue rows s)) = trace s"
proof (induction rows s rule: forEach_addToQueue.induct)
  case (1 s)
  show ?case by simp
next
  case (2 i pl rows s)
  obtain r s1 where a: "addToQueue i pl s = (r, s1)" by (cases "addToQueue i pl s")
  with addToQueue_trace[of i pl s] have t: "trace s1 = trace s" by simp
  show ?case
  proof (cases r)
    case (Inl e)
    with a t show ?thesis by simp
  next
    case (Inr u)
    with a t "2.IH" show ?thesis by auto
  qed
qed

lemma processPending_trace: "trace (processPending a s) = trace s @ [SelectPending]"
  by (cases a) (simp_all add: processPending_def emit_def forEach_addToQueue_trace)

lemma toUpperCase_joined:
  "toUpperCase ''joined'' = ''JOINED''" "toUpperCase ''joining'' = ''JOINING''"
  "toUpperCase ''leaving'' = ''LEAVING''" "toUpperCase ''closed'' = ''CLOSED''"
  "toUpperCase ''errored'' = ''ERRORED''"
  by (simp_all add: toUpperCase_def)

lemma setupListener_restarts:
  assumes "shouldRestart s"
  shows "\<exists>es. trace (setupListener env s) = trace s @ es \<and> (\<exists>c. Subscribe c \<in> set es)"
proof (cases "channel s")
  case None
  then show ?thesis
    by (cases "subscribe_ok env (channels s)")
       (auto simp: setupListener_def Let_def emit_def)
next
  case (Some c)
  with assms have "chanState s c \<noteq> ''joined'' \<and> chanState s c \<noteq> ''joining''"
    by (auto simp: shouldRestart_def toUpperCase_joined)
  with Some show ?thesis
    by (cases "subscribe_ok env (channels s)")
       (auto simp: setupListener_def Let_def emit_def)
qed

text \<open>
  C8 says that a tick of the watchdog forces a fresh subscription whenever the
  subscription is in a state other than subscribed, a channel wedged in \<open>joining\<close>
  included, and that it always runs the reconciliation pull. The pull is as claimed. The
  restart is not: the watchdog restarts only when there is no channel or the channel's
  state reads \<open>CLOSED\<close>, \<open>ERRORED\<close> or \<open>CHANNEL_ERROR\<close>, and \<open>setupListener\<close> itself
  returns at once on a channel that is \<open>joined\<close> or \<open>joining\<close>. With the current
  channel in state \<open>joining\<close>, a tick does the pull and nothing else.
\<close>

theorem watchdog_leaves_joining_channel:
  "trace (watchdog env_works (Inr [])
       ((initial :: nat agent)\<lparr>channel := Some 0, chanState := (\<lambda>c. ''joining''), channels := 1\<rparr>)) =
     [SelectPending]"
  by (simp add: watchdog_def shouldRestart_def toUpperCase_joined processPending_def emit_def
      initial_def)

text \<open>
  C8 as amended. Every tick runs the reconciliation pull. A tick makes a fresh subscribe
  attempt exactly when there is no current channel or its state, in upper case, is
  \<open>CLOSED\<close>, \<open>ERRORED\<close> or \<open>CHANNEL_ERROR\<close>; in every other state (\<open>joined\<close>,
  \<open>joining\<close>, \<open>leaving\<close>) the channel is left alone.
\<close>

theorem watchdog_pulls_always_restarts_when_closed:
  "\<exists>es. trace (watchdog env a s) = trace s @ es \<and>
        SelectPending \<in> set es \<and>
        ((\<exists>c. Subscribe c \<in> set es) =
           (channel s = None \<or>
            (\<exists>c. channel s = Some c \<and>
                 toUpperCase (chanState s c) \<in> {''CLOSED'', ''ERRORED'', ''CHANNEL_ERROR''})))"
proof (cases "shouldRestart s")
  case True
  from setupListener_restarts[OF True, of env] obtain es c where
    es: "trace (setupListener env s) = trace s @ es" "Subscribe c \<in> set es" by blast
  define fs :: "'a event list" where "fs = []"
  have fs: "trace (processPending a (setupListener env s)) =
           trace (setupListener env s) @ SelectPending # fs"
    by (simp add: processPending_trace fs_def)
  have "trace (watchdog env a s) = trace s @ (es @ SelectPending # fs)"
    using True es fs by (simp add: watchdog_def)
  moreover have "SelectPending \<in> set (es @ SelectPending # fs)" by simp
  moreover have "\<exists>c. Subscribe c \<in> set (es @ SelectPending # fs)" using es(2) by auto
  moreover have "channel s = None \<or>
            (\<exists>c. channel s = Some c \<and>
                 toUpperCase (chanState s c) \<in> {''CLOSED'', ''ERRORED'', ''CHANNEL_ERROR''})"
    using True by (auto simp: shouldRestart_def split: option.splits)
  ultimately show ?thesis by blast
next
  case False
  define fs :: "'a event list" where "fs = []"
  have fs: "trace (processPending a s) = trace s @ SelectPending # fs"
        "\<forall>c. Subscribe c \<notin> set fs"
    by (simp_all add: processPending_trace fs_def)
  have "trace (watchdog env a s) = trace s @ (SelectPending # fs)"
    using False fs by (simp add: watchdog_def)
  moreover have "SelectPending \<in> set (SelectPending # fs)" by simp
  moreover have "\<not> (\<exists>c. Subscribe c \<in> set (SelectPending # fs))" using fs(2) by auto
  moreover have "\<not> (channel s = None \<or>
            (\<exists>c. channel s = Some c \<and>
                 toUpperCase (chanState s c) \<in> {''CLOSED'', ''ERRORED'', ''CHANNEL_ERROR''}))"
    using False by (auto simp: shouldRestart_def split: option.splits)
  ultimately show ?thesis by blast
qed

theorem watchdog_pulls_always_restarts_when_closed_witness:
  "\<exists>es. trace (watchdog env_works (Inr []) (initial :: nat agent)) = es \<and>
        SelectPending \<in> set es \<and> (\<exists>c. Subscribe c \<in> set es)"
  using watchdog_pulls_always_restarts_when_closed[of env_works "Inr []" "initial :: nat agent"]
  by (simp add: initial_def)

subsection \<open>C9: no pause between two jobs\<close>

text \<open>
  C9 says that the worker pauses between the end of one delivery and the start of the
  next. \<open>next()\<close> does not: its \<open>finally\<close> block registers the next run with
  \<open>setImmediate\<close> and nothing waits. With jobs 7 and 8 queued and a working printer,
  the trace holds no \<open>Wait\<close> at all: the receipt of job 8 is submitted right after the
  ledger update of job 7. (The two older variants of the agent in the repository wait
  3000 ms and 2000 ms at this point, in \<open>processQueue\<close>.)
\<close>

theorem next_job_starts_without_pause:
  "trace (run_immediates env_works
       (snd (addToQueue 8 receipt (snd (addToQueue (7::nat) receipt initial))))) =
     [DeviceOpen 0, Submit 7 0, LedgerUpdate 7 Printed, Submit 8 0, LedgerUpdate 8 Printed]"
  by (simp add: run_defs run_immediates.simps addToQueue_def push_def next_begin_def
      next_finish_def take_immediate_def printTicketSafe_def PrintQueue_next_def env_works_def)

subsection \<open>C10: the duplicate check does not see the job in flight\<close>

lemma reachable_running_le: "reachable q fl \<Longrightarrow> running q \<le> concurrency q"
proof (induction rule: reachable.induct)
  case (New c m)
  show ?case by (simp add: new_PrintQueue_def)
next
  case (Push q fl j)
  then show ?case by (simp add: push_def)
next
  case (Pop q fl)
  then show ?case
    by (cases "queue q") (auto simp: next_begin_def)
next
  case (Finish q fl i)
  then show ?case by (simp add: next_finish_def)
qed

text \<open>
  C10: in every state the queue can reach in which a job with id \<open>X\<close> is in flight
  (taken from the buffer by \<open>next()\<close>, its delivery not ended), a \<open>push\<close> of an entry
  with id \<open>X\<close> returns \<open>true\<close> and appends the entry whenever the buffer is below its
  maximum and does not hold \<open>X\<close>; and the id is then delivered a second time. When the
  delivery in flight has ended and the worker runs on, the ledger gets the update of
  the delivery in flight for \<open>X\<close>, then one update for each job that was in the buffer,
  and then a second update for \<open>X\<close>, from the delivery of the pushed entry.
\<close>

theorem push_does_not_see_job_in_flight:
  assumes "reachable (printQueue s) fl"
    and "job_id j \<in> set fl"
    and "length (queue (printQueue s)) < maxLength (printQueue s)"
    and "job_id j \<notin> set (map job_id (queue (printQueue s)))"
  shows
    "0 < running (printQueue s) \<and>
     push j (printQueue s) =
       (True, (printQueue s)\<lparr>queue := queue (printQueue s) @ [j],
                scheduled := scheduled (printQueue s) + 1\<rparr>) \<and>
     (\<exists>sts st. length sts = length (queue (printQueue s)) \<and>
        set (st # sts) \<subseteq> {Printed, Error} \<and>
        ledger_writes (trace (run_immediates env
            (end_delivery (printTicketSafe env (job_id j) pl0
               (s\<lparr>printQueue := snd (push j (printQueue s))\<rparr>))))) =
          ledger_writes (trace s) @
            (job_id j,
             if fst (performPrint env (job_id j) pl0 0
                       (s\<lparr>printQueue := snd (push j (printQueue s))\<rparr>)) = Inr ()
             then Printed else Error) #
            zip (map job_id (queue (printQueue s))) sts @ [(job_id j, st)])"
proof -
  let ?q = "printQueue s"
  let ?q' = "?q\<lparr>queue := queue ?q @ [j], scheduled := scheduled ?q + 1\<rparr>"
  let ?st0 = "if fst (performPrint env (job_id j) pl0 0 (s\<lparr>printQueue := snd (push j ?q)\<rparr>)) = Inr ()
              then Printed else Error"
  let ?t0 = "printTicketSafe env (job_id j) pl0 (s\<lparr>printQueue := snd (push j ?q)\<rparr>)"
  let ?t = "end_delivery ?t0"
  from reachable_running[OF assms(1)] assms(2) have run: "0 < running ?q"
    by (cases fl) auto
  have "\<not> list_ex (\<lambda>x. job_id x = job_id j) (queue ?q)"
    using assms(4) by (auto simp: list_ex_iff image_iff)
  with assms(3) have p: "push j ?q = (True, ?q')"
    by (simp add: push_def)
  have pq: "printQueue ?t = next_finish ?q'"
    by (simp add: end_delivery_def printTicketSafe_queue p)
  have free: "running (printQueue ?t) < concurrency (printQueue ?t)"
    using run reachable_running_le[OF assms(1)] by (simp add: pq next_finish_def)
  have cb: "queue (printQueue ?t) \<noteq> [] \<longrightarrow> scheduled (printQueue ?t) > 0"
    by (simp add: pq next_finish_def)
  have w0: "ledger_writes (trace ?t) = ledger_writes (trace s) @ [(job_id j, ?st0)]"
    by (simp add: end_delivery_def printTicketSafe_ledger)
  from run_immediates_drains[OF free cb, of env] obtain sts' where
    l: "length sts' = length (queue ?q) + 1" and ss: "set sts' \<subseteq> {Printed, Error}"
    and w: "ledger_writes (trace (run_immediates env ?t)) =
              ledger_writes (trace ?t) @ zip (map job_id (queue ?q) @ [job_id j]) sts'"
    by (auto simp: pq next_finish_def)
  from l have ne: "sts' \<noteq> []" by auto
  define sts where "sts = butlast sts'"
  define st where "st = last sts'"
  from ne have split: "sts' = sts @ [st]" by (simp add: sts_def st_def)
  with l have ls: "length sts = length (queue ?q)" by simp
  from ss split have ss': "set (st # sts) \<subseteq> {Printed, Error}" by auto
  from ls have "zip (map job_id (queue ?q) @ [job_id j]) (sts @ [st]) =
      zip (map job_id (queue ?q)) sts @ [(job_id j, st)]"
    by simp
  with w w0 split have
    "ledger_writes (trace (run_immediates env ?t)) =
       ledger_writes (trace s) @ (job_id j, ?st0) # zip (map job_id (queue ?q)) sts @ [(job_id j, st)]"
    by simp
  with ls ss' have "\<exists>sts st. length sts = length (queue ?q) \<and>
        set (st # sts) \<subseteq> {Printed, Error} \<and>
        ledger_writes (trace (run_immediates env ?t)) =
          ledger_writes (trace s) @ (job_id j, ?st0) # zip (map job_id (queue ?q)) sts @ [(job_id j, st)]"
    by blast
  with run p show ?thesis by blast
qed

theorem push_does_not_see_job_in_flight_witness:
  "reachable (printQueue job7_in_flight) [7] \<and>
   push \<lparr>job_id = 7, payload = receipt\<rparr> (printQueue job7_in_flight) =
     (True, \<lparr>concurrency = 1, maxLength = 300,
        queue = [\<lparr>job_id = 7, payload = receipt\<rparr>], running = 1, scheduled = 1\<rparr>) \<and>
   trace (run_immediates env_works
       (end_delivery (printTicketSafe env_works 7 receipt
          (job7_in_flight\<lparr>printQueue :=
             snd (push \<lparr>job_id = 7, payload = receipt\<rparr> (printQueue job7_in_flight))\<rparr>)))) =
     [DeviceOpen 0, Submit 7 0, LedgerUpdate 7 Printed, Submit 7 0, LedgerUpdate 7 Printed]"
proof -
  let ?q0 = "snd (push \<lparr>job_id = 7::nat, payload = receipt\<rparr> (new_PrintQueue 1 300))"
  have "reachable ?q0 []" by (rule reachable.Push[OF reachable.New])
  moreover have "scheduled ?q0 > 0" by (simp add: push_def new_PrintQueue_def)
  ultimately have
    "reachable (snd (next_begin (?q0\<lparr>scheduled := scheduled ?q0 - 1\<rparr>)))
       (case fst (next_begin (?q0\<lparr>scheduled := scheduled ?q0 - 1\<rparr>)) of
          None \<Rightarrow> []
        | Some j \<Rightarrow> [] @ [job_id j])"
    by (rule reachable.Pop)
  then have "reachable
      \<lparr>concurrency = 1, maxLength = 300, queue = [], running = 1, scheduled = 0\<rparr> [7::nat]"
    by (simp add: next_begin_def push_def new_PrintQueue_def)
  moreover have q: "printQueue job7_in_flight =
      \<lparr>concurrency = 1, maxLength = 300, queue = [], running = 1, scheduled = 0\<rparr>"
    by (simp add: job7_in_flight_def addToQueue_def push_def next_begin_def take_immediate_def
        receipt_valid initial_def new_PrintQueue_def QUEUE_MAX_LENGTH_def)
  ultimately have r: "reachable (printQueue job7_in_flight) [7]" by simp
  have t: "trace (run_immediates env_works
       (end_delivery (printTicketSafe env_works 7 receipt
          (job7_in_flight\<lparr>printQueue :=
             snd (push \<lparr>job_id = 7, payload = receipt\<rparr> (printQueue job7_in_flight))\<rparr>)))) =
     [DeviceOpen 0, Submit 7 0, LedgerUpdate 7 Printed, Submit 7 0, LedgerUpdate 7 Printed]"
    by (simp add: run_defs run_immediates.simps addToQueue_def push_def next_begin_def
        next_finish_def take_immediate_def printTicketSafe_def PrintQueue_next_def
        end_delivery_def job7_in_flight_def env_works_def)
  from push_does_not_see_job_in_flight
         [OF r, of "\<lparr>job_id = 7, payload = receipt\<rparr>" env_works receipt]
  have "push \<lparr>job_id = 7, payload = receipt\<rparr> (printQueue job7_in_flight) =
     (True, (printQueue job7_in_flight)\<lparr>queue := queue (printQueue job7_in_flight) @
        [\<lparr>job_id = 7, payload = receipt\<rparr>],
        scheduled := scheduled (printQueue job7_in_flight) + 1\<rparr>)"
    by (simp add: q)
  with r t show ?thesis by (simp add: q)
qed

end
